theory Spec2Isabelle
  imports Main "HOL-Library.Word"
begin

unbundle bit_operations_syntax

section \<open>Bytes, slices and the Go runtime's failures\<close>

text \<open>
  A Go \<open>[]byte\<close> is a slice header (pointer, length, capacity) over a backing array.
  The backing array is a list of bytes; a header addresses it by the index \<open>s_ptr\<close> of
  its first element. Two headers over the same array alias each other, as
  \<open>baseBuffer\<close> and \<open>workingMemory\<close> do in the manager.
\<close>

type_synonym byte = "8 word"

record slice =
  s_ptr :: nat
  s_len :: nat
  s_cap :: nat

text \<open>
  The ways a run of the program stops: the run-time panics of slicing, indexing and
  \<open>make\<close>, the call of \<open>log.Fatal\<close>, and the fault of touching memory that is not
  mapped.
\<close>

datatype error = MakeLenOutOfRange | SliceBoundsOutOfRange | IndexOutOfRange | LogFatal | SegFault

text \<open>\<open>s[:n]\<close>: the upper bound of a slice expression is checked against the capacity.\<close>

definition slice_to :: "slice \<Rightarrow> int \<Rightarrow> error + slice" where
  "slice_to s n =
     (if n < 0 \<or> int (s_cap s) < n then Inl SliceBoundsOutOfRange
      else Inr \<lparr>s_ptr = s_ptr s, s_len = nat n, s_cap = s_cap s\<rparr>)"

text \<open>\<open>s[off:]\<close>: the lower bound is checked against the length.\<close>

definition slice_from :: "slice \<Rightarrow> int \<Rightarrow> error + slice" where
  "slice_from s off =
     (if off < 0 \<or> int (s_len s) < off then Inl SliceBoundsOutOfRange
      else Inr \<lparr>s_ptr = s_ptr s + nat off, s_len = s_len s - nat off,
                s_cap = s_cap s - nat off\<rparr>)"

text \<open>Storing the bytes \<open>bs\<close> into the array from index \<open>p\<close> on, one element at a time.\<close>

fun write_bytes :: "byte list \<Rightarrow> nat \<Rightarrow> byte list \<Rightarrow> byte list" where
  "write_bytes m p [] = m"
| "write_bytes m p (b # bs) = write_bytes (m[p := b]) (Suc p) bs"

text \<open>The built-in \<open>copy(dst, src)\<close> copies \<open>min(len(dst), len(src))\<close> elements.\<close>

definition copy_bytes :: "byte list \<Rightarrow> slice \<Rightarrow> byte list \<Rightarrow> byte list" where
  "copy_bytes m dst src = write_bytes m (s_ptr dst) (take (s_len dst) src)"

text \<open>Reading the elements a slice header addresses.\<close>

definition slice_bytes :: "byte list \<Rightarrow> slice \<Rightarrow> byte list" where
  "slice_bytes m s = take (s_len s) (drop (s_ptr s) m)"

section \<open>The random source\<close>

text \<open>
  \<open>crypto/rand.Read\<close> is outside the program. Its behaviour is a parameter: \<open>pending\<close>
  lists what the source delivers on each call still to come, and \<open>calls\<close> counts the
  calls made so far. A delivery shorter than the slice asked for is a failed read: the
  bytes delivered are stored and the call reports an error. An exhausted supply
  delivers nothing.
\<close>

record entropy =
  pending :: "byte list list"
  calls :: nat

definition rand_Read :: "entropy \<Rightarrow> slice \<Rightarrow> byte list \<Rightarrow> byte list \<times> bool \<times> entropy" where
  "rand_Read ent s m =
     (case pending ent of
        [] \<Rightarrow> (m, s_len s = 0, \<lparr>pending = [], calls = Suc (calls ent)\<rparr>)
      | r # rest \<Rightarrow>
          (write_bytes m (s_ptr s) (take (s_len s) r), s_len s \<le> length r,
           \<lparr>pending = rest, calls = Suc (calls ent)\<rparr>))"

section \<open>The clearing routine\<close>

text \<open>
  \<open>clearMemorySecure\<close>: ten passes of \<open>rand.Read(mem[:length])\<close>, whose errors are
  dropped, then the loop \<open>for i := 0; i < length; i++ { mem[i] = 0 }\<close>. The slice
  expression panics when \<open>length\<close> is negative or beyond the capacity, and it is
  evaluated before the first read; the index expression panics at \<open>len(mem)\<close>.
\<close>

primrec rand_passes :: "nat \<Rightarrow> slice \<Rightarrow> byte list \<times> entropy \<Rightarrow> byte list \<times> entropy" where
  "rand_passes 0 s me = me"
| "rand_passes (Suc k) s me =
     (case rand_Read (snd me) s (fst me) of (m', ok, ent') \<Rightarrow> rand_passes k s (m', ent'))"

primrec zero_loop :: "slice \<Rightarrow> nat \<Rightarrow> nat \<Rightarrow> byte list \<Rightarrow> error + byte list" where
  "zero_loop s i 0 m = Inr m"
| "zero_loop s i (Suc k) m =
     (if i < s_len s then zero_loop s (Suc i) k (m[s_ptr s + i := 0])
      else Inl IndexOutOfRange)"

definition clearMemorySecure ::
  "byte list \<Rightarrow> entropy \<Rightarrow> slice \<Rightarrow> int \<Rightarrow> error + (byte list \<times> entropy)" where
  "clearMemorySecure m ent s length' =
     (case slice_to s length' of
        Inl e \<Rightarrow> Inl e
      | Inr target \<Rightarrow>
          (case rand_passes 10 target (m, ent) of
             (m1, ent1) \<Rightarrow>
               (case zero_loop s 0 (nat length') m1 of
                  Inl e \<Rightarrow> Inl e
                | Inr m2 \<Rightarrow> Inr (m2, ent1))))"

section \<open>The secure memory manager\<close>

text \<open>
  \<open>mem\<close> is the array that \<open>make([]byte, bufferSize)\<close> allocates; \<open>baseBuffer\<close> and
  \<open>workingMemory\<close> are the two headers over it that the struct keeps.
\<close>

record SecureMemoryManager =
  mem :: "byte list"
  baseBuffer :: slice
  workingMemory :: slice
  bufferSize :: int
  dataLength :: int

text \<open>
  \<open>createMemoryAddressingWithRandomOffsetStruct\<close>. The two offset bytes start as
  zeros and receive what the random source delivers. All quantities are non-negative
  where \<open>%\<close> is applied, so Go's truncated remainder is \<open>mod\<close>; a Go \<open>int\<close> is 64 bits
  wide and no value here leaves that range for a buffer that fits in memory.
\<close>

definition createMemoryAddressingWithRandomOffsetStruct ::
  "slice \<Rightarrow> entropy \<Rightarrow> error + (slice \<times> entropy)" where
  "createMemoryAddressingWithRandomOffsetStruct buffer ent =
     (if s_len buffer < 256 then Inr (buffer, ent)
      else
        (case rand_Read ent \<lparr>s_ptr = 0, s_len = 2, s_cap = 2\<rparr> [0, 0] of
           (offsetBytes, ok, ent1) \<Rightarrow>
             (let maxOffset = int (s_len buffer) - 128;
                  offset = (push_bit 8 (uint (offsetBytes ! 0)) OR uint (offsetBytes ! 1))
                             mod maxOffset;
                  offset = (if offset < 64 then 64 else offset);
                  offset = (if offset > maxOffset - 64 then maxOffset - 64 else offset)
              in (case slice_from buffer offset of
                    Inl e \<Rightarrow> Inl e
                  | Inr w \<Rightarrow> Inr (w, ent1)))))"

text \<open>
  \<open>NewSecureMemoryManager\<close>. \<open>make\<close> panics on a negative length and yields zero
  bytes otherwise. A failed read ends the program through \<open>log.Fatal\<close>. The argument
  \<open>workingMemory[:16]\<close> of the print statement is a slice expression of its own.
\<close>

definition NewSecureMemoryManager ::
  "int \<Rightarrow> entropy \<Rightarrow> error + (SecureMemoryManager \<times> entropy)" where
  "NewSecureMemoryManager bufferSize' ent =
     (if bufferSize' < 0 then Inl MakeLenOutOfRange
      else
        (let m0 = replicate (nat bufferSize') (0 :: byte);
             baseBuffer' = \<lparr>s_ptr = 0, s_len = nat bufferSize', s_cap = nat bufferSize'\<rparr>
         in (case createMemoryAddressingWithRandomOffsetStruct baseBuffer' ent of
               Inl e \<Rightarrow> Inl e
             | Inr (workingMemory', ent1) \<Rightarrow>
                 (case rand_Read ent1 workingMemory' m0 of
                    (m1, ok, ent2) \<Rightarrow>
                      if \<not> ok then Inl LogFatal
                      else
                        (case slice_to workingMemory' 16 of
                           Inl e \<Rightarrow> Inl e
                         | Inr shown \<Rightarrow>
                             Inr (\<lparr>mem = m1, baseBuffer = baseBuffer',
                                   workingMemory = workingMemory',
                                   bufferSize = bufferSize', dataLength = 0\<rparr>, ent2))))))"

text \<open>
  \<open>CopyData\<close>: the destination \<open>sm.workingMemory[:len(data)]\<close> is sliced (and sliced
  once more for the print statement), the data copied, its length recorded.
\<close>

definition CopyData :: "SecureMemoryManager \<Rightarrow> byte list \<Rightarrow> error + SecureMemoryManager" where
  "CopyData sm data =
     (case slice_to (workingMemory sm) (int (length data)) of
        Inl e \<Rightarrow> Inl e
      | Inr dst \<Rightarrow>
          (let sm1 = sm\<lparr>mem := copy_bytes (mem sm) dst data, dataLength := int (length data)\<rparr>
           in (case slice_to (workingMemory sm1) (int (length data)) of
                 Inl e \<Rightarrow> Inl e
               | Inr shown \<Rightarrow> Inr sm1)))"

text \<open>
  \<open>ClearSecure\<close>: the clearing routine runs only under the guard \<open>dataLength > 0\<close>; the
  print statement slices \<open>workingMemory[:16]\<close> on both paths.
\<close>

definition ClearSecure ::
  "SecureMemoryManager \<Rightarrow> entropy \<Rightarrow> error + (SecureMemoryManager \<times> entropy)" where
  "ClearSecure sm ent =
     (case (if dataLength sm > 0
            then (case clearMemorySecure (mem sm) ent (workingMemory sm) (dataLength sm) of
                    Inl e \<Rightarrow> Inl e
                  | Inr (m', ent') \<Rightarrow> Inr (sm\<lparr>mem := m', dataLength := 0\<rparr>, ent'))
            else Inr (sm, ent)) of
        Inl e \<Rightarrow> Inl e
      | Inr (sm1, ent1) \<Rightarrow>
          (case slice_to (workingMemory sm1) 16 of
             Inl e \<Rightarrow> Inl e
           | Inr shown \<Rightarrow> Inr (sm1, ent1)))"

text \<open>
  What holds of every manager the constructor returns and every operation keeps: the
  working memory is a tail of the allocated array, its length equals its capacity and is
  at least 16, and the recorded data length lies within it.
\<close>

definition manager_inv :: "SecureMemoryManager \<Rightarrow> bool" where
  "manager_inv sm \<longleftrightarrow>
     s_ptr (workingMemory sm) + s_cap (workingMemory sm) = length (mem sm) \<and>
     s_len (workingMemory sm) = s_cap (workingMemory sm) \<and>
     16 \<le> s_cap (workingMemory sm) \<and>
     0 \<le> dataLength sm \<and> dataLength sm \<le> int (s_len (workingMemory sm))"

text \<open>
  The bytes of the array outside the range a slice header addresses: what lies before
  it and what lies after it. Two arrays agree outside a window exactly when these agree.
\<close>

definition rest_of_region :: "slice \<Rightarrow> byte list \<Rightarrow> byte list \<times> byte list" where
  "rest_of_region w m = (take (s_ptr w) m, drop (s_ptr w + s_len w) m)"

text \<open>
  The range that a write of \<open>n\<close> bytes occupies: \<open>sm.workingMemory[:n]\<close>.
\<close>

definition written_range :: "SecureMemoryManager \<Rightarrow> nat \<Rightarrow> slice" where
  "written_range sm n = \<lparr>s_ptr = s_ptr (workingMemory sm), s_len = n, s_cap = s_cap (workingMemory sm)\<rparr>"



section \<open>The locked buffer\<close>

text \<open>
  The operating system's part. Mapped memory is a partial map from the base address of
  each mapping to its bytes and its pinned flag; an address outside it is not mapped.
  What the kernel answers to one allocation is a parameter: the address \<open>mmap\<close>
  hands out (or none, when it fails) and whether \<open>mlock\<close> is granted.
\<close>

record region =
  bytes :: "byte list"
  pinned :: bool

type_synonym memory = "nat \<rightharpoonup> region"

datatype errno = EINVAL | ENOMEM

record kernel =
  mmap_at :: "nat option"
  mlock_grants :: bool

text \<open>
  The four calls of Go's \<open>syscall\<close> package that the program makes.
  \<open>syscall.Mmap\<close> rejects a length that is not positive before it reaches the
  kernel; an anonymous mapping is zero-filled. \<open>syscall.Munmap\<close> releases only a
  mapping that \<open>Mmap\<close> handed out, with the same base and length, and reports
  \<open>EINVAL\<close> otherwise.
\<close>

definition Mmap :: "memory \<Rightarrow> kernel \<Rightarrow> int \<Rightarrow> errno + (nat \<times> memory)" where
  "Mmap h k length' =
     (if length' \<le> 0 then Inl EINVAL
      else (case mmap_at k of
              None \<Rightarrow> Inl ENOMEM
            | Some a \<Rightarrow>
                Inr (a, h(a \<mapsto> \<lparr>bytes = replicate (nat length') 0, pinned = False\<rparr>))))"

definition Mlock :: "memory \<Rightarrow> kernel \<Rightarrow> nat \<Rightarrow> errno + memory" where
  "Mlock h k a =
     (case h a of
        None \<Rightarrow> Inl ENOMEM
      | Some r \<Rightarrow> if mlock_grants k then Inr (h(a \<mapsto> r\<lparr>pinned := True\<rparr>)) else Inl ENOMEM)"


definition Munmap :: "memory \<Rightarrow> nat \<Rightarrow> nat \<Rightarrow> errno + memory" where
  "Munmap h a n =
     (case h a of
        None \<Rightarrow> Inl EINVAL
      | Some r \<Rightarrow> if n = 0 \<or> length (bytes r) \<noteq> n then Inl EINVAL else Inr (h(a := None)))"

text \<open>
  The program drops the results of \<open>Munlock\<close> and \<open>Munmap\<close>: on an
  error the memory stays as it was and the run goes on.
\<close>

definition dropping_error :: "memory \<Rightarrow> errno + memory \<Rightarrow> memory" where
  "dropping_error h res = (case res of Inl e \<Rightarrow> h | Inr h' \<Rightarrow> h')"

record lockedBuffer =
  addr :: nat
  size' :: int
  locked :: bool

text \<open>
  Each method rebuilds a slice of \<open>size\<close> bytes from the raw address; the
  header is relative to the base of the region. Touching a byte of it needs the region
  to be mapped and to hold that byte; anything else is a fault.
\<close>

definition raw_slice :: "lockedBuffer \<Rightarrow> slice" where
  "raw_slice b = \<lparr>s_ptr = 0, s_len = nat (size' b), s_cap = nat (size' b)\<rparr>"

definition region_at :: "memory \<Rightarrow> lockedBuffer \<Rightarrow> error + region" where
  "region_at h b =
     (case h (addr b) of
        None \<Rightarrow> Inl SegFault
      | Some r \<Rightarrow> if s_len (raw_slice b) \<le> length (bytes r) then Inr r else Inl SegFault)"

text \<open>
  \<open>newLockedBuffer\<close> returns \<open>nil\<close> when the mapping or the pinning
  fails, and unmaps before returning in the second case.
\<close>

definition newLockedBuffer :: "memory \<Rightarrow> kernel \<Rightarrow> int \<Rightarrow> lockedBuffer option \<times> memory" where
  "newLockedBuffer h k size'' =
     (case Mmap h k size'' of
        Inl err \<Rightarrow> (None, h)
      | Inr (data, h1) \<Rightarrow>
          (let buf = \<lparr>addr = data, size' = size'', locked = False\<rparr>
           in (case Mlock h1 k (addr buf) of
                 Inl err \<Rightarrow> (None, dropping_error h1 (Munmap h1 data (nat size'')))
               | Inr h2 \<Rightarrow> (Some (buf\<lparr>locked := True\<rparr>), h2))))"

text \<open>
  \<open>copyTo\<close> returns at once when the sizes differ and copies otherwise. No byte
  is touched when the slices are empty.
\<close>

definition copyTo :: "memory \<Rightarrow> lockedBuffer \<Rightarrow> lockedBuffer \<Rightarrow> error + memory" where
  "copyTo h b dest =
     (if size' b \<noteq> size' dest then Inr h
      else if s_len (raw_slice b) = 0 then Inr h
      else
        (case region_at h b of
           Inl e \<Rightarrow> Inl e
         | Inr src \<Rightarrow>
             (case region_at h dest of
                Inl e \<Rightarrow> Inl e
              | Inr dst \<Rightarrow>
                  Inr (h(addr dest \<mapsto>
                         dst\<lparr>bytes := copy_bytes (bytes dst) (raw_slice dest)
                                          (slice_bytes (bytes src) (raw_slice b))\<rparr>)))))"



text \<open>
  A buffer whose region is mapped with the size the struct records, as
  \<open>newLockedBuffer\<close> returns it.
\<close>

definition live :: "memory \<Rightarrow> lockedBuffer \<Rightarrow> bool" where
  "live h b \<longleftrightarrow>
     0 < size' b \<and>
     (case h (addr b) of None \<Rightarrow> False | Some r \<Rightarrow> length (bytes r) = nat (size' b))"

section \<open>Example states\<close>

text \<open>
  A manager over 256 bytes as the constructor returns it (window at offset 64), the same
  after three bytes were written, and after they were cleared; a random source with two
  short deliveries left; a memory with three mapped regions.
\<close>

abbreviation (input) manager256 :: SecureMemoryManager where
  "manager256 \<equiv>
     \<lparr>mem = replicate 64 0 @ replicate 192 0xA5,
      baseBuffer = \<lparr>s_ptr = 0, s_len = 256, s_cap = 256\<rparr>,
      workingMemory = \<lparr>s_ptr = 64, s_len = 192, s_cap = 192\<rparr>,
      bufferSize = 256, dataLength = 0\<rparr>"

abbreviation (input) written256 :: SecureMemoryManager where
  "written256 \<equiv>
     \<lparr>mem = replicate 64 0 @ [1, 2, 3] @ replicate 189 0xA5,
      baseBuffer = \<lparr>s_ptr = 0, s_len = 256, s_cap = 256\<rparr>,
      workingMemory = \<lparr>s_ptr = 64, s_len = 192, s_cap = 192\<rparr>,
      bufferSize = 256, dataLength = 3\<rparr>"

abbreviation (input) cleared256 :: SecureMemoryManager where
  "cleared256 \<equiv>
     \<lparr>mem = replicate 64 0 @ [0, 0, 0] @ replicate 189 0xA5,
      baseBuffer = \<lparr>s_ptr = 0, s_len = 256, s_cap = 256\<rparr>,
      workingMemory = \<lparr>s_ptr = 64, s_len = 192, s_cap = 192\<rparr>,
      bufferSize = 256, dataLength = 0\<rparr>"

abbreviation (input) short_supply :: entropy where
  "short_supply \<equiv> \<lparr>pending = [[9, 9, 9], [8, 8]], calls = 2\<rparr>"

abbreviation (input) two_buffers :: memory where
  "two_buffers \<equiv> [4096 \<mapsto> \<lparr>bytes = [217, 195], pinned = True\<rparr>,
                    8192 \<mapsto> \<lparr>bytes = [0, 0], pinned = True\<rparr>,
                    12288 \<mapsto> \<lparr>bytes = [0, 0, 0], pinned = True\<rparr>]"

section \<open>Writing bytes, random passes and the zero loop\<close>

lemma length_write_bytes [simp]: "length (write_bytes m p bs) = length m"
  by (induction bs arbitrary: m p) auto

lemma nth_write_bytes_outside:
  "i < p \<or> p + length bs \<le> i \<Longrightarrow> write_bytes m p bs ! i = m ! i"
  by (induction bs arbitrary: m p) auto

lemma nth_write_bytes_inside:
  "p + length bs \<le> length m \<Longrightarrow> i < length bs \<Longrightarrow> write_bytes m p bs ! (p + i) = bs ! i"
proof (induction bs arbitrary: m p i)
  case Nil
  then show ?case by simp
next
  case (Cons b bs)
  show ?case
  proof (cases i)
    case 0
    with Cons.prems show ?thesis by (simp add: nth_write_bytes_outside)
  next
    case (Suc j)
    with Cons.prems Cons.IH [of "Suc p" "m[p := b]" j] show ?thesis by simp
  qed
qed

lemma write_bytes_whole: "length bs = length m \<Longrightarrow> write_bytes m 0 bs = bs"
  by (intro nth_equalityI) (simp_all add: nth_write_bytes_inside [of 0, simplified])

lemma rand_Read_length: "rand_Read ent s m = (m', ok, ent') \<Longrightarrow> length m' = length m"
  by (auto simp: rand_Read_def split: list.splits)

lemma rand_Read_calls: "rand_Read ent s m = (m', ok, ent') \<Longrightarrow> calls ent' = Suc (calls ent)"
  by (auto simp: rand_Read_def split: list.splits)

lemma rand_Read_outside:
  "rand_Read ent s m = (m', ok, ent') \<Longrightarrow> i < s_ptr s \<or> s_ptr s + s_len s \<le> i \<Longrightarrow> m' ! i = m ! i"
  by (auto simp: rand_Read_def nth_write_bytes_outside split: list.splits)

lemma rand_passes_length: "rand_passes k s (m, ent) = (m', ent') \<Longrightarrow> length m' = length m"
proof (induction k arbitrary: m ent)
  case 0
  then show ?case by simp
next
  case (Suc k)
  obtain m1 ok e1 where r: "rand_Read ent s m = (m1, ok, e1)" by (metis prod_cases3)
  with Suc.prems have "rand_passes k s (m1, e1) = (m', ent')" by simp
  with Suc.IH have "length m' = length m1" by blast
  with r show ?case by (simp add: rand_Read_length)
qed

lemma rand_passes_calls: "rand_passes k s (m, ent) = (m', ent') \<Longrightarrow> calls ent' = calls ent + k"
proof (induction k arbitrary: m ent)
  case 0
  then show ?case by simp
next
  case (Suc k)
  obtain m1 ok e1 where r: "rand_Read ent s m = (m1, ok, e1)" by (metis prod_cases3)
  with Suc.prems have "rand_passes k s (m1, e1) = (m', ent')" by simp
  with Suc.IH have "calls ent' = calls e1 + k" by blast
  with r show ?case by (simp add: rand_Read_calls)
qed

lemma rand_passes_outside:
  "rand_passes k s (m, ent) = (m', ent') \<Longrightarrow> i < s_ptr s \<or> s_ptr s + s_len s \<le> i \<Longrightarrow> m' ! i = m ! i"
proof (induction k arbitrary: m ent)
  case 0
  then show ?case by simp
next
  case (Suc k)
  obtain m1 ok e1 where r: "rand_Read ent s m = (m1, ok, e1)" by (metis prod_cases3)
  with Suc.prems have "rand_passes k s (m1, e1) = (m', ent')" by simp
  with Suc.IH Suc.prems(2) have "m' ! i = m1 ! i" by blast
  with r Suc.prems(2) show ?case by (simp add: rand_Read_outside)
qed

lemma zero_loop_ok: "i + k \<le> s_len s \<Longrightarrow> \<exists>m'. zero_loop s i k m = Inr m'"
  by (induction k arbitrary: i m) auto

lemma zero_loop_fails:
  "i \<le> s_len s \<Longrightarrow> s_len s < i + k \<Longrightarrow> zero_loop s i k m = Inl IndexOutOfRange"
  by (induction k arbitrary: i m) auto

lemma zero_loop_length: "zero_loop s i k m = Inr m' \<Longrightarrow> length m' = length m"
  by (induction k arbitrary: i m) (auto split: if_splits)

lemma zero_loop_outside:
  "zero_loop s i k m = Inr m' \<Longrightarrow> j < s_ptr s + i \<or> s_ptr s + i + k \<le> j \<Longrightarrow> m' ! j = m ! j"
proof (induction k arbitrary: i m)
  case 0
  then show ?case by simp
next
  case (Suc k)
  from Suc.prems(1) have z: "zero_loop s (Suc i) k (m[s_ptr s + i := 0]) = Inr m'"
    by (simp split: if_splits)
  from Suc.prems(2) have "j < s_ptr s + Suc i \<or> s_ptr s + Suc i + k \<le> j" by arith
  with Suc.IH [OF z] have "m' ! j = m[s_ptr s + i := 0] ! j" by blast
  moreover from Suc.prems(2) have "s_ptr s + i \<noteq> j" by arith
  ultimately show ?case by simp
qed

lemma zero_loop_inside:
  "zero_loop s i k m = Inr m' \<Longrightarrow> s_ptr s + i + k \<le> length m \<Longrightarrow> i \<le> j \<Longrightarrow> j < i + k
     \<Longrightarrow> m' ! (s_ptr s + j) = 0"
proof (induction k arbitrary: i m)
  case 0
  then show ?case by simp
next
  case (Suc k)
  from Suc.prems(1) have z: "zero_loop s (Suc i) k (m[s_ptr s + i := 0]) = Inr m'"
    by (simp split: if_splits)
  show ?case
  proof (cases "j = i")
    case True
    have "m' ! (s_ptr s + i) = m[s_ptr s + i := 0] ! (s_ptr s + i)"
      by (rule zero_loop_outside [OF z]) simp
    with Suc.prems(2) True show ?thesis by simp
  next
    case False
    with Suc.prems have "Suc i \<le> j" "j < Suc i + k" "s_ptr s + Suc i + k \<le> length (m[s_ptr s + i := 0])"
      by simp_all
    with Suc.IH [OF z] show ?thesis by blast
  qed
qed


lemma rest_of_region_eqI:
  assumes "length m' = length m"
    and "\<And>i. i < length m \<Longrightarrow> i < s_ptr w \<or> s_ptr w + s_len w \<le> i \<Longrightarrow> m' ! i = m ! i"
  shows "rest_of_region w m' = rest_of_region w m"
proof -
  have "take (s_ptr w) m' = take (s_ptr w) m"
    using assms by (intro nth_equalityI) auto
  moreover have "drop (s_ptr w + s_len w) m' = drop (s_ptr w + s_len w) m"
    using assms by (intro nth_equalityI) auto
  ultimately show ?thesis by (simp add: rest_of_region_def)
qed


section \<open>The clearing routine and the window\<close>

lemma clearMemorySecure_ok:
  assumes "0 \<le> n" "n \<le> int (s_len s)" "s_len s \<le> s_cap s"
  shows "\<exists>m' ent'. clearMemorySecure m ent s n = Inr (m', ent')"
proof -
  obtain m1 e1 where p: "rand_passes 10 \<lparr>s_ptr = s_ptr s, s_len = nat n, s_cap = s_cap s\<rparr> (m, ent) = (m1, e1)"
    by (metis surj_pair)
  from assms have "0 + nat n \<le> s_len s" by simp
  then obtain m2 where "zero_loop s 0 (nat n) m1 = Inr m2"
    using zero_loop_ok by blast
  with p assms show ?thesis by (simp add: clearMemorySecure_def slice_to_def)
qed

lemma clearMemorySecure_effect:
  assumes c: "clearMemorySecure m ent s n = Inr (m', ent')"
  shows "length m' = length m"
    and "calls ent' = calls ent + 10"
    and "i < s_ptr s \<or> s_ptr s + nat n \<le> i \<Longrightarrow> m' ! i = m ! i"
    and "s_ptr s + nat n \<le> length m \<Longrightarrow> j < nat n \<Longrightarrow> m' ! (s_ptr s + j) = 0"
proof -
  let ?t = "\<lparr>s_ptr = s_ptr s, s_len = nat n, s_cap = s_cap s\<rparr>"
  from c have st: "slice_to s n = Inr ?t"
    by (auto simp: clearMemorySecure_def slice_to_def split: if_splits)
  obtain m1 e1 where p: "rand_passes 10 ?t (m, ent) = (m1, e1)"
    by (metis surj_pair)
  from c st p have z: "zero_loop s 0 (nat n) m1 = Inr m'" and e: "ent' = e1"
    by (auto simp: clearMemorySecure_def split: sum.splits)
  from p have l1: "length m1 = length m" by (rule rand_passes_length)
  from z have l2: "length m' = length m1" by (rule zero_loop_length)
  from l1 l2 show "length m' = length m" by simp
  from p e show "calls ent' = calls ent + 10" by (simp add: rand_passes_calls)
  show "m' ! i = m ! i" if o: "i < s_ptr s \<or> s_ptr s + nat n \<le> i"
  proof -
    from o have "m1 ! i = m ! i" by (intro rand_passes_outside [OF p]) simp
    moreover from o have "m' ! i = m1 ! i" by (intro zero_loop_outside [OF z]) simp
    ultimately show ?thesis by simp
  qed
  show "m' ! (s_ptr s + j) = 0" if "s_ptr s + nat n \<le> length m" "j < nat n"
    using that l1 by (intro zero_loop_inside [OF z]) simp_all
qed

lemma slice_from_ok:
  "0 \<le> off \<Longrightarrow> off \<le> int (s_len s) \<Longrightarrow>
     slice_from s off = Inr \<lparr>s_ptr = s_ptr s + nat off, s_len = s_len s - nat off, s_cap = s_cap s - nat off\<rparr>"
  by (simp add: slice_from_def)

lemma createMem_small:
  "s_len b < 256 \<Longrightarrow> createMemoryAddressingWithRandomOffsetStruct b ent = Inr (b, ent)"
  by (simp add: createMemoryAddressingWithRandomOffsetStruct_def)

lemma createMem_total:
  "\<exists>w ent'. createMemoryAddressingWithRandomOffsetStruct b ent = Inr (w, ent')"
  by (auto simp: createMemoryAddressingWithRandomOffsetStruct_def Let_def slice_from_def
      split: prod.splits)

lemma createMem_large:
  assumes "256 \<le> s_len b"
    and "createMemoryAddressingWithRandomOffsetStruct b ent = Inr (w, ent')"
  shows "s_ptr b + 64 \<le> s_ptr w" and "s_ptr w + 192 \<le> s_ptr b + s_len b"
    and "s_ptr w + s_len w = s_ptr b + s_len b"
    and "s_ptr w + s_cap w = s_ptr b + s_cap b \<or> s_cap b < s_len b"
    and "calls ent' = Suc (calls ent)"
  using assms
  by (auto simp: createMemoryAddressingWithRandomOffsetStruct_def Let_def slice_from_def
      dest: rand_Read_calls split: prod.splits if_splits)

section \<open>The manager keeps its invariant\<close>

lemma New_result:
  assumes "NewSecureMemoryManager n ent = Inr (sm, ent')"
  shows "manager_inv sm" and "length (mem sm) = nat n" and "dataLength sm = 0"
    and "rest_of_region (workingMemory sm) (mem sm) =
         rest_of_region (workingMemory sm) (replicate (nat n) 0)"
proof -
  let ?bb = "\<lparr>s_ptr = 0, s_len = nat n, s_cap = nat n\<rparr>"
  let ?m0 = "replicate (nat n) (0 :: byte)"
  from assms have n: "0 \<le> n"
    by (simp add: NewSecureMemoryManager_def split: if_splits)
  obtain w e1 where cm: "createMemoryAddressingWithRandomOffsetStruct ?bb ent = Inr (w, e1)"
    using createMem_total by blast
  obtain m1 ok e2 where rr: "rand_Read e1 w ?m0 = (m1, ok, e2)"
    by (metis prod_cases3)
  from assms n cm rr have cap: "16 \<le> s_cap w"
    and sm: "sm = \<lparr>mem = m1, baseBuffer = ?bb, workingMemory = w, bufferSize = n, dataLength = 0\<rparr>"
    by (auto simp: NewSecureMemoryManager_def Let_def slice_to_def split: if_splits)
  have w: "s_ptr w + s_cap w = nat n \<and> s_len w = s_cap w"
  proof (cases "s_len ?bb < 256")
    case True
    with cm have "w = ?bb" by (simp add: createMem_small)
    then show ?thesis by simp
  next
    case False
    then have "256 \<le> s_len ?bb" by simp
    from createMem_large(3,4) [OF this cm] show ?thesis by simp
  qed
  from rr have len: "length m1 = nat n" by (simp add: rand_Read_length)
  from w cap len sm show "manager_inv sm" by (simp add: manager_inv_def)
  from len sm show "length (mem sm) = nat n" by simp
  from sm show "dataLength sm = 0" by simp
  have "rest_of_region w m1 = rest_of_region w ?m0"
    using len rand_Read_outside [OF rr] by (intro rest_of_region_eqI) simp_all
  with sm show "rest_of_region (workingMemory sm) (mem sm) =
         rest_of_region (workingMemory sm) (replicate (nat n) 0)" by simp
qed

lemma CopyData_ok:
  assumes "length d \<le> s_cap (workingMemory sm)"
  shows "CopyData sm d =
           Inr (sm\<lparr>mem := write_bytes (mem sm) (s_ptr (workingMemory sm)) d,
                    dataLength := int (length d)\<rparr>)"
  using assms by (simp add: CopyData_def slice_to_def copy_bytes_def Let_def)

lemma CopyData_fails:
  assumes "s_cap (workingMemory sm) < length d"
  shows "CopyData sm d = Inl SliceBoundsOutOfRange"
  using assms by (simp add: CopyData_def slice_to_def)

lemma CopyData_inv:
  assumes "manager_inv sm" and "CopyData sm d = Inr sm'"
  shows "manager_inv sm'"
proof (cases "length d \<le> s_cap (workingMemory sm)")
  case True
  from assms(2) CopyData_ok [OF True] assms(1) True show ?thesis
    by (auto simp: manager_inv_def)
next
  case False
  then have "CopyData sm d = Inl SliceBoundsOutOfRange" by (simp add: CopyData_fails)
  with assms(2) show ?thesis by simp
qed

lemma ClearSecure_clean:
  assumes "dataLength sm \<le> 0" and "16 \<le> s_cap (workingMemory sm)"
  shows "ClearSecure sm ent = Inr (sm, ent)"
  using assms by (simp add: ClearSecure_def slice_to_def)

lemma ClearSecure_dirty:
  assumes "manager_inv sm" and "0 < dataLength sm"
  shows "\<exists>m' ent'. clearMemorySecure (mem sm) ent (workingMemory sm) (dataLength sm) = Inr (m', ent')
           \<and> ClearSecure sm ent = Inr (sm\<lparr>mem := m', dataLength := 0\<rparr>, ent')"
proof -
  from assms have "0 \<le> dataLength sm" "dataLength sm \<le> int (s_len (workingMemory sm))"
    "s_len (workingMemory sm) \<le> s_cap (workingMemory sm)"
    by (simp_all add: manager_inv_def)
  then obtain m' ent' where
    c: "clearMemorySecure (mem sm) ent (workingMemory sm) (dataLength sm) = Inr (m', ent')"
    using clearMemorySecure_ok by blast
  moreover from assms c have "ClearSecure sm ent = Inr (sm\<lparr>mem := m', dataLength := 0\<rparr>, ent')"
    by (simp add: ClearSecure_def slice_to_def manager_inv_def)
  ultimately show ?thesis by blast
qed

lemma ClearSecure_effect:
  assumes inv: "manager_inv sm" and c: "ClearSecure sm ent = Inr (sm', ent')"
  shows "workingMemory sm' = workingMemory sm" and "dataLength sm' = 0"
    and "length (mem sm') = length (mem sm)"
    and "i < s_ptr (workingMemory sm) \<or> s_ptr (workingMemory sm) + nat (dataLength sm) \<le> i
           \<Longrightarrow> mem sm' ! i = mem sm ! i"
    and "j < nat (dataLength sm) \<Longrightarrow> mem sm' ! (s_ptr (workingMemory sm) + j) = 0"
    and "calls ent' = calls ent + (if 0 < dataLength sm then 10 else 0)"
proof -
  have "workingMemory sm' = workingMemory sm \<and> dataLength sm' = 0 \<and>
        length (mem sm') = length (mem sm) \<and>
        (i < s_ptr (workingMemory sm) \<or> s_ptr (workingMemory sm) + nat (dataLength sm) \<le> i
           \<longrightarrow> mem sm' ! i = mem sm ! i) \<and>
        (j < nat (dataLength sm) \<longrightarrow> mem sm' ! (s_ptr (workingMemory sm) + j) = 0) \<and>
        calls ent' = calls ent + (if 0 < dataLength sm then 10 else 0)"
  proof (cases "0 < dataLength sm")
    case True
    from ClearSecure_dirty [OF inv True, of ent] c obtain m' where
      cm: "clearMemorySecure (mem sm) ent (workingMemory sm) (dataLength sm) = Inr (m', ent')"
      and sm': "sm' = sm\<lparr>mem := m', dataLength := 0\<rparr>" by auto
    from inv have fit: "s_ptr (workingMemory sm) + nat (dataLength sm) \<le> length (mem sm)"
      unfolding manager_inv_def by linarith
    from clearMemorySecure_effect [OF cm] fit sm' True show ?thesis by simp
  next
    case False
    with inv have "ClearSecure sm ent = Inr (sm, ent)"
      by (intro ClearSecure_clean) (simp_all add: manager_inv_def)
    with c False inv show ?thesis by (simp add: manager_inv_def)
  qed
  then show "workingMemory sm' = workingMemory sm" and "dataLength sm' = 0"
    and "length (mem sm') = length (mem sm)"
    and "i < s_ptr (workingMemory sm) \<or> s_ptr (workingMemory sm) + nat (dataLength sm) \<le> i
           \<Longrightarrow> mem sm' ! i = mem sm ! i"
    and "j < nat (dataLength sm) \<Longrightarrow> mem sm' ! (s_ptr (workingMemory sm) + j) = 0"
    and "calls ent' = calls ent + (if 0 < dataLength sm then 10 else 0)"
    by simp_all
qed


section \<open>The locked buffer: basic facts\<close>

lemma live_region:
  assumes "live h b"
  obtains r where "h (addr b) = Some r" and "length (bytes r) = nat (size' b)" and "0 < size' b"
  using assms by (auto simp: live_def split: option.splits)

lemma newLockedBuffer_live:
  assumes "newLockedBuffer h k n = (Some b, h')"
  shows "live h' b"
  using assms
  by (auto simp: newLockedBuffer_def Mmap_def Mlock_def live_def Let_def
      split: if_splits option.splits)



lemma copyTo_mismatch: "size' b \<noteq> size' dest \<Longrightarrow> copyTo h b dest = Inr h"
  by (simp add: copyTo_def)



section \<open>Properties of the secure memory manager\<close>



text \<open>
  Claim C2. For data of any length from 0 up to the length of the window, a write
  followed by \<open>ClearSecure\<close> leaves zero in every byte of the written range, and
  the clearing touches that range only: the bytes of the array outside the first
  \<open>n\<close> bytes of the window are those the write left.
\<close>

theorem ClearSecure_zeroes_written_range:
  assumes "manager_inv sm" and "length d \<le> s_len (workingMemory sm)"
  shows "\<exists>sm1 sm2 ent2.
           CopyData sm d = Inr sm1 \<and>
           ClearSecure sm1 ent = Inr (sm2, ent2) \<and>
           take (length d) (slice_bytes (mem sm2) (workingMemory sm2)) = replicate (length d) 0 \<and>
           rest_of_region (written_range sm (length d)) (mem sm2) =
             rest_of_region (written_range sm (length d)) (mem sm1)"
proof -
  let ?w = "workingMemory sm"
  from assms have cap: "length d \<le> s_cap ?w" by (simp add: manager_inv_def)
  define sm1 where "sm1 = sm\<lparr>mem := write_bytes (mem sm) (s_ptr ?w) d, dataLength := int (length d)\<rparr>"
  from cap have cd: "CopyData sm d = Inr sm1" by (simp add: CopyData_ok sm1_def)
  from assms(1) cd have inv1: "manager_inv sm1" by (rule CopyData_inv)
  have dl: "dataLength sm1 = int (length d)" and w1: "workingMemory sm1 = ?w"
    and l1: "length (mem sm1) = length (mem sm)"
    by (simp_all add: sm1_def)
  obtain sm2 ent2 where cs: "ClearSecure sm1 ent = Inr (sm2, ent2)"
  proof (cases "0 < dataLength sm1")
    case True
    from ClearSecure_dirty [OF inv1 True, of ent] that show ?thesis by blast
  next
    case False
    with inv1 have "ClearSecure sm1 ent = Inr (sm1, ent)"
      by (intro ClearSecure_clean) (simp_all add: manager_inv_def)
    with that show ?thesis by blast
  qed
  note eff = ClearSecure_effect [OF inv1 cs]
  have fit: "s_ptr ?w + s_len ?w \<le> length (mem sm2)"
    using assms(1) eff(3) l1 by (simp add: manager_inv_def)
  have "take (length d) (slice_bytes (mem sm2) (workingMemory sm2)) = replicate (length d) 0"
  proof (rule nth_equalityI)
    from assms(2) fit eff(1) w1
    show "length (take (length d) (slice_bytes (mem sm2) (workingMemory sm2))) =
          length (replicate (length d) (0::byte))"
      by (simp add: slice_bytes_def)
    fix i assume "i < length (take (length d) (slice_bytes (mem sm2) (workingMemory sm2)))"
    then have i: "i < length d" by simp
    with assms(2) fit eff(1) w1 eff(5) [of i] dl
    show "take (length d) (slice_bytes (mem sm2) (workingMemory sm2)) ! i = replicate (length d) 0 ! i"
      by (simp add: slice_bytes_def)
  qed
  moreover have "rest_of_region (written_range sm (length d)) (mem sm2) =
             rest_of_region (written_range sm (length d)) (mem sm1)"
    using eff(3) eff(4) dl w1 by (intro rest_of_region_eqI) (simp_all add: written_range_def)
  ultimately show ?thesis using cd cs by blast
qed

text \<open>
  The same at the 256-byte manager, for writes of no byte, of three bytes and of the 192
  bytes that fill the window.
\<close>

theorem ClearSecure_zeroes_written_range_witness:
  "manager_inv manager256 \<and>
   length ([] :: byte list) \<le> s_len (workingMemory manager256) \<and>
   length [1, 2, 3 :: byte] \<le> s_len (workingMemory manager256) \<and>
   length (replicate 192 (7 :: byte)) \<le> s_len (workingMemory manager256) \<and>
   (\<exists>sm1 sm2 ent2.
      CopyData manager256 [] = Inr sm1 \<and>
      ClearSecure sm1 short_supply = Inr (sm2, ent2) \<and>
      take (length ([] :: byte list)) (slice_bytes (mem sm2) (workingMemory sm2)) =
        replicate (length ([] :: byte list)) 0 \<and>
      rest_of_region (written_range manager256 (length ([] :: byte list))) (mem sm2) =
        rest_of_region (written_range manager256 (length ([] :: byte list))) (mem sm1)) \<and>
   (\<exists>sm1 sm2 ent2.
      CopyData manager256 [1, 2, 3] = Inr sm1 \<and>
      ClearSecure sm1 short_supply = Inr (sm2, ent2) \<and>
      take (length [1, 2, 3 :: byte]) (slice_bytes (mem sm2) (workingMemory sm2)) =
        replicate (length [1, 2, 3 :: byte]) 0 \<and>
      rest_of_region (written_range manager256 (length [1, 2, 3 :: byte])) (mem sm2) =
        rest_of_region (written_range manager256 (length [1, 2, 3 :: byte])) (mem sm1)) \<and>
   (\<exists>sm1 sm2 ent2.
      CopyData manager256 (replicate 192 7) = Inr sm1 \<and>
      ClearSecure sm1 short_supply = Inr (sm2, ent2) \<and>
      take (length (replicate 192 (7 :: byte))) (slice_bytes (mem sm2) (workingMemory sm2)) =
        replicate (length (replicate 192 (7 :: byte))) 0 \<and>
      rest_of_region (written_range manager256 (length (replicate 192 (7 :: byte)))) (mem sm2) =
        rest_of_region (written_range manager256 (length (replicate 192 (7 :: byte)))) (mem sm1))"
proof -
  have h1: "manager_inv manager256" by (simp add: manager_inv_def)
  have h0: "length ([] :: byte list) \<le> s_len (workingMemory manager256)" by simp
  have h2: "length [1, 2, 3 :: byte] \<le> s_len (workingMemory manager256)" by simp
  have h3: "length (replicate 192 (7 :: byte)) \<le> s_len (workingMemory manager256)" by simp
  from ClearSecure_zeroes_written_range [OF h1 h0, of short_supply]
    ClearSecure_zeroes_written_range [OF h1 h2, of short_supply]
    ClearSecure_zeroes_written_range [OF h1 h3, of short_supply] h1 h0 h2 h3
  show ?thesis by blast
qed

text \<open>
  Claim C3. Isolation. The random fill of the working memory in the constructor, a write
  and a clear change no byte of the backing array outside the window: after the
  constructor the bytes outside the window are the zeros that \<open>make\<close> gave, and
  after \<open>CopyData\<close> and after \<open>ClearSecure\<close> the bytes outside the window
  are what they were before the call; the window itself stays where it is.
\<close>

theorem window_isolation:
  "(NewSecureMemoryManager n ent = Inr (sm, ent') \<longrightarrow>
      length (mem sm) = nat n \<and>
      rest_of_region (workingMemory sm) (mem sm) =
        rest_of_region (workingMemory sm) (replicate (nat n) 0)) \<and>
   (manager_inv sm0 \<and> CopyData sm0 d = Inr sm1 \<longrightarrow>
      workingMemory sm1 = workingMemory sm0 \<and> length (mem sm1) = length (mem sm0) \<and>
      rest_of_region (workingMemory sm0) (mem sm1) = rest_of_region (workingMemory sm0) (mem sm0)) \<and>
   (manager_inv sm1 \<and> ClearSecure sm1 ent1 = Inr (sm2, ent2) \<longrightarrow>
      workingMemory sm2 = workingMemory sm1 \<and> length (mem sm2) = length (mem sm1) \<and>
      rest_of_region (workingMemory sm1) (mem sm2) = rest_of_region (workingMemory sm1) (mem sm1))"
proof (intro conjI impI)
  assume "NewSecureMemoryManager n ent = Inr (sm, ent')"
  from New_result(2,4) [OF this]
  show "length (mem sm) = nat n"
    and "rest_of_region (workingMemory sm) (mem sm) =
        rest_of_region (workingMemory sm) (replicate (nat n) 0)" .
next
  assume a: "manager_inv sm0 \<and> CopyData sm0 d = Inr sm1"
  let ?w = "workingMemory sm0"
  have cap: "length d \<le> s_cap ?w"
  proof (rule ccontr)
    assume "\<not> length d \<le> s_cap ?w"
    then have "CopyData sm0 d = Inl SliceBoundsOutOfRange" by (simp add: CopyData_fails)
    with a show False by simp
  qed
  from a CopyData_ok [OF cap]
  have sm1: "sm1 = sm0\<lparr>mem := write_bytes (mem sm0) (s_ptr ?w) d, dataLength := int (length d)\<rparr>"
    by simp
  then show "workingMemory sm1 = ?w" and "length (mem sm1) = length (mem sm0)" by simp_all
  from a cap have "s_ptr ?w + length d \<le> s_ptr ?w + s_len ?w" by (simp add: manager_inv_def)
  then show "rest_of_region ?w (mem sm1) = rest_of_region ?w (mem sm0)"
    unfolding sm1 by (intro rest_of_region_eqI) (auto simp: nth_write_bytes_outside)
next
  assume a: "manager_inv sm1 \<and> ClearSecure sm1 ent1 = Inr (sm2, ent2)"
  then have inv: "manager_inv sm1" and cs: "ClearSecure sm1 ent1 = Inr (sm2, ent2)" by simp_all
  note eff = ClearSecure_effect [OF inv cs]
  from eff(1,3) show "workingMemory sm2 = workingMemory sm1"
    and "length (mem sm2) = length (mem sm1)" .
  from inv have "nat (dataLength sm1) \<le> s_len (workingMemory sm1)"
    unfolding manager_inv_def by linarith
  then show "rest_of_region (workingMemory sm1) (mem sm2) = rest_of_region (workingMemory sm1) (mem sm1)"
    using eff(3) eff(4) by (intro rest_of_region_eqI) auto
qed

text \<open>
  The three steps run one after the other on 256 bytes: the 64 bytes before the window
  stay zero throughout.
\<close>

theorem window_isolation_witness:
  "NewSecureMemoryManager 256 \<lparr>pending = [[1, 2], replicate 192 0xA5], calls = 0\<rparr> =
     Inr (manager256, \<lparr>pending = [], calls = 2\<rparr>) \<and>
   manager_inv manager256 \<and> CopyData manager256 [1, 2, 3] = Inr written256 \<and>
   manager_inv written256 \<and>
   ClearSecure written256 short_supply = Inr (cleared256, \<lparr>pending = [], calls = 12\<rparr>) \<and>
   rest_of_region (workingMemory manager256) (mem manager256) =
     rest_of_region (workingMemory manager256) (replicate (nat 256) 0) \<and>
   rest_of_region (workingMemory manager256) (mem written256) =
     rest_of_region (workingMemory manager256) (mem manager256) \<and>
   rest_of_region (workingMemory written256) (mem cleared256) =
     rest_of_region (workingMemory written256) (mem written256)"
proof -
  have n: "NewSecureMemoryManager 256 \<lparr>pending = [[1, 2], replicate 192 0xA5], calls = 0\<rparr> =
     Inr (manager256, \<lparr>pending = [], calls = 2\<rparr>)" by code_simp
  have i0: "manager_inv manager256" by (simp add: manager_inv_def)
  have c: "CopyData manager256 [1, 2, 3] = Inr written256" by code_simp
  have i1: "manager_inv written256" by (simp add: manager_inv_def)
  have z: "ClearSecure written256 short_supply = Inr (cleared256, \<lparr>pending = [], calls = 12\<rparr>)"
    by code_simp
  from window_isolation [of 256 "\<lparr>pending = [[1, 2], replicate 192 0xA5], calls = 0\<rparr>"
      manager256 "\<lparr>pending = [], calls = 2\<rparr>" manager256 "[1, 2, 3]" written256
      short_supply cleared256 "\<lparr>pending = [], calls = 12\<rparr>"] n i0 c i1 z
  show ?thesis by blast
qed




text \<open>
  Claim C5. \<open>CopyData\<close> fails exactly when the data is longer than the window:
  the slice expression \<open>sm.workingMemory[:len(data)]\<close> panics (the capacity error
  of the code is this run-time panic); otherwise the call succeeds.
\<close>

theorem CopyData_capacity:
  assumes "manager_inv sm"
  shows "(s_len (workingMemory sm) < length d \<longrightarrow> CopyData sm d = Inl SliceBoundsOutOfRange) \<and>
         (length d \<le> s_len (workingMemory sm) \<longrightarrow> (\<exists>sm'. CopyData sm d = Inr sm'))"
  using assms by (simp add: manager_inv_def CopyData_ok CopyData_fails)

text \<open>
  The same at the 256-byte manager, whose window holds 192 bytes: 193 bytes are
  refused, three are accepted.
\<close>

theorem CopyData_capacity_witness:
  "manager_inv manager256 \<and>
   s_len (workingMemory manager256) < length (replicate 193 (0 :: byte)) \<and>
   CopyData manager256 (replicate 193 0) = Inl SliceBoundsOutOfRange \<and>
   length [1, 2, 3 :: byte] \<le> s_len (workingMemory manager256) \<and>
   (\<exists>sm'. CopyData manager256 [1, 2, 3] = Inr sm')"
proof -
  have h: "manager_inv manager256" by (simp add: manager_inv_def)
  from CopyData_capacity [OF h, of "replicate 193 0"] CopyData_capacity [OF h, of "[1, 2, 3]"] h
  show ?thesis by simp
qed

text \<open>
  Claim C6. Round trip. For data that fits the window, \<open>CopyData\<close> succeeds,
  the first \<open>len(data)\<close> bytes of the window then read as the data, and
  \<open>dataLength\<close> is \<open>len(data)\<close>.
\<close>

theorem CopyData_round_trip:
  assumes "manager_inv sm" and "length d \<le> s_len (workingMemory sm)"
  shows "\<exists>sm'. CopyData sm d = Inr sm' \<and>
           take (length d) (slice_bytes (mem sm') (workingMemory sm')) = d \<and>
           dataLength sm' = int (length d)"
proof -
  let ?w = "workingMemory sm"
  from assms have cap: "length d \<le> s_cap ?w" and fit: "s_ptr ?w + s_len ?w \<le> length (mem sm)"
    by (simp_all add: manager_inv_def)
  define sm1 where "sm1 = sm\<lparr>mem := write_bytes (mem sm) (s_ptr ?w) d, dataLength := int (length d)\<rparr>"
  from cap have cd: "CopyData sm d = Inr sm1" by (simp add: CopyData_ok sm1_def)
  have "take (length d) (slice_bytes (mem sm1) (workingMemory sm1)) = d"
  proof (rule nth_equalityI)
    from assms(2) fit
    show "length (take (length d) (slice_bytes (mem sm1) (workingMemory sm1))) = length d"
      by (simp add: slice_bytes_def sm1_def)
    fix i assume "i < length (take (length d) (slice_bytes (mem sm1) (workingMemory sm1)))"
    then have i: "i < length d" by simp
    from assms(2) fit have "s_ptr ?w + length d \<le> length (mem sm)" by simp
    from nth_write_bytes_inside [OF this i] i assms(2) fit
    show "take (length d) (slice_bytes (mem sm1) (workingMemory sm1)) ! i = d ! i"
      by (simp add: slice_bytes_def sm1_def)
  qed
  with cd show ?thesis by (auto simp: sm1_def)
qed

text \<open>
  The same at the 256-byte manager, for a write of three bytes.
\<close>

theorem CopyData_round_trip_witness:
  "manager_inv manager256 \<and>
   length [1, 2, 3 :: byte] \<le> s_len (workingMemory manager256) \<and>
   (\<exists>sm'. CopyData manager256 [1, 2, 3] = Inr sm' \<and>
      take (length [1, 2, 3 :: byte]) (slice_bytes (mem sm') (workingMemory sm')) = [1, 2, 3] \<and>
      dataLength sm' = int (length [1, 2, 3 :: byte]))"
proof -
  have h1: "manager_inv manager256" by (simp add: manager_inv_def)
  have h2: "length [1, 2, 3 :: byte] \<le> s_len (workingMemory manager256)" by simp
  from CopyData_round_trip [OF h1 h2] h1 h2 show ?thesis by blast
qed

section \<open>Properties of the locked buffer\<close>

text \<open>
  Claim C7, as the code has it. Between two live buffers of equal size \<open>copyTo\<close>
  makes the bytes of the destination equal to those of the source. When the sizes differ
  it returns normally, with no error, and the memory is as before: nothing is copied, so
  nothing is truncated.
\<close>

theorem copyTo_copies_or_returns:
  "(size' b = size' dest \<and> live h b \<and> live h dest \<longrightarrow>
      (\<exists>src dst. h (addr b) = Some src \<and> h (addr dest) = Some dst \<and>
         copyTo h b dest = Inr (h(addr dest \<mapsto> dst\<lparr>bytes := bytes src\<rparr>)))) \<and>
   (size' b \<noteq> size' dest \<longrightarrow> copyTo h b dest = Inr h)"
proof (intro conjI impI)
  assume a: "size' b = size' dest \<and> live h b \<and> live h dest"
  then obtain src where src: "h (addr b) = Some src" "length (bytes src) = nat (size' b)" "0 < size' b"
    by (auto elim: live_region)
  from a obtain dst where dst: "h (addr dest) = Some dst" "length (bytes dst) = nat (size' dest)"
    by (auto elim: live_region)
  from a src dst have "copy_bytes (bytes dst) (raw_slice dest) (slice_bytes (bytes src) (raw_slice b))
          = bytes src"
    by (simp add: copy_bytes_def slice_bytes_def raw_slice_def write_bytes_whole)
  with a src dst have "copyTo h b dest = Inr (h(addr dest \<mapsto> dst\<lparr>bytes := bytes src\<rparr>))"
    by (simp add: copyTo_def region_at_def raw_slice_def)
  with src dst
  show "\<exists>src dst. h (addr b) = Some src \<and> h (addr dest) = Some dst \<and>
         copyTo h b dest = Inr (h(addr dest \<mapsto> dst\<lparr>bytes := bytes src\<rparr>))"
    by blast
next
  assume "size' b \<noteq> size' dest"
  then show "copyTo h b dest = Inr h" by (rule copyTo_mismatch)
qed

text \<open>
  The same in a memory with two buffers of two bytes and one of three.
\<close>

theorem copyTo_copies_or_returns_witness:
  "size' \<lparr>addr = 4096, size' = 2, locked = True\<rparr> = size' \<lparr>addr = 8192, size' = 2, locked = True\<rparr> \<and>
   live two_buffers \<lparr>addr = 4096, size' = 2, locked = True\<rparr> \<and>
   live two_buffers \<lparr>addr = 8192, size' = 2, locked = True\<rparr> \<and>
   (\<exists>src dst.
      two_buffers (addr \<lparr>addr = 4096, size' = 2, locked = True\<rparr>) = Some src \<and>
      two_buffers (addr \<lparr>addr = 8192, size' = 2, locked = True\<rparr>) = Some dst \<and>
      copyTo two_buffers \<lparr>addr = 4096, size' = 2, locked = True\<rparr>
          \<lparr>addr = 8192, size' = 2, locked = True\<rparr> =
        Inr (two_buffers(addr \<lparr>addr = 8192, size' = 2, locked = True\<rparr> \<mapsto>
               dst\<lparr>bytes := bytes src\<rparr>))) \<and>
   size' \<lparr>addr = 4096, size' = 2, locked = True\<rparr> \<noteq> size' \<lparr>addr = 12288, size' = 3, locked = True\<rparr> \<and>
   copyTo two_buffers \<lparr>addr = 4096, size' = 2, locked = True\<rparr>
     \<lparr>addr = 12288, size' = 3, locked = True\<rparr> = Inr two_buffers"
proof -
  have l1: "live two_buffers \<lparr>addr = 4096, size' = 2, locked = True\<rparr>" by (simp add: live_def)
  have l2: "live two_buffers \<lparr>addr = 8192, size' = 2, locked = True\<rparr>" by (simp add: live_def)
  from copyTo_copies_or_returns [of "\<lparr>addr = 4096, size' = 2, locked = True\<rparr>"
         "\<lparr>addr = 8192, size' = 2, locked = True\<rparr>" two_buffers]
       copyTo_copies_or_returns [of "\<lparr>addr = 4096, size' = 2, locked = True\<rparr>"
         "\<lparr>addr = 12288, size' = 3, locked = True\<rparr>" two_buffers] l1 l2
  show ?thesis by simp
qed

text \<open>
  Claim C7 as stated fails: a copy from a buffer of two bytes to one of three does not
  fail, it returns normally with the memory unchanged.
\<close>

theorem copyTo_mismatch_returns_normally:
  "copyTo two_buffers \<lparr>addr = 4096, size' = 2, locked = True\<rparr>
     \<lparr>addr = 12288, size' = 3, locked = True\<rparr> = Inr two_buffers"
  by (simp add: copyTo_def)

text \<open>
  Claim C8. \<open>newLockedBuffer\<close> returns \<open>nil\<close> when the size is not positive,
  when the mapping fails, and when the pinning fails; in the last case the region that
  was mapped is unmapped before the return, so the memory is as it was before the call.
  With a positive size, a mapping and a granted pinning it returns the pinned buffer.
\<close>

theorem newLockedBuffer_failures:
  "(n \<le> 0 \<longrightarrow> newLockedBuffer h k n = (None, h)) \<and>
   (mmap_at k = None \<longrightarrow> newLockedBuffer h k n = (None, h)) \<and>
   (0 < n \<and> mmap_at k = Some a \<and> h a = None \<and> \<not> mlock_grants k \<longrightarrow>
      (\<exists>h1 r. Mmap h k n = Inr (a, h1) \<and> h1 a = Some r \<and>
         Munmap h1 a (nat n) = Inr h \<and> newLockedBuffer h k n = (None, h))) \<and>
   (0 < n \<and> mmap_at k = Some a \<and> mlock_grants k \<longrightarrow>
      newLockedBuffer h k n =
        (Some \<lparr>addr = a, size' = n, locked = True\<rparr>,
         h(a \<mapsto> \<lparr>bytes = replicate (nat n) 0, pinned = True\<rparr>)))"
proof (intro conjI impI)
  assume "n \<le> 0"
  then show "newLockedBuffer h k n = (None, h)"
    by (simp add: newLockedBuffer_def Mmap_def)
next
  assume "mmap_at k = None"
  then show "newLockedBuffer h k n = (None, h)"
    by (simp add: newLockedBuffer_def Mmap_def)
next
  assume a: "0 < n \<and> mmap_at k = Some a \<and> h a = None \<and> \<not> mlock_grants k"
  let ?r = "\<lparr>bytes = replicate (nat n) (0::byte), pinned = False\<rparr>"
  let ?h1 = "h(a \<mapsto> ?r)"
  from a have mm: "Mmap h k n = Inr (a, ?h1)" by (simp add: Mmap_def)
  from a have "?h1(a := None) = h" by auto
  with a have mu: "Munmap ?h1 a (nat n) = Inr h" by (simp add: Munmap_def)
  from a mm mu have "newLockedBuffer h k n = (None, h)"
    by (simp add: newLockedBuffer_def Mlock_def dropping_error_def)
  with mm mu show "\<exists>h1 r. Mmap h k n = Inr (a, h1) \<and> h1 a = Some r \<and>
         Munmap h1 a (nat n) = Inr h \<and> newLockedBuffer h k n = (None, h)"
    by (intro exI [of _ ?h1] exI [of _ ?r]) simp
next
  assume "0 < n \<and> mmap_at k = Some a \<and> mlock_grants k"
  then show "newLockedBuffer h k n =
        (Some \<lparr>addr = a, size' = n, locked = True\<rparr>,
         h(a \<mapsto> \<lparr>bytes = replicate (nat n) 0, pinned = True\<rparr>))"
    by (simp add: newLockedBuffer_def Mmap_def Mlock_def)
qed

text \<open>
  Each of the four cases on an empty memory.
\<close>

theorem newLockedBuffer_failures_witness:
  "(0::int) \<le> 0 \<and>
   newLockedBuffer Map.empty \<lparr>mmap_at = Some 4096, mlock_grants = True\<rparr> 0 = (None, Map.empty) \<and>
   mmap_at \<lparr>mmap_at = None, mlock_grants = True\<rparr> = None \<and>
   newLockedBuffer Map.empty \<lparr>mmap_at = None, mlock_grants = True\<rparr> 16 = (None, Map.empty) \<and>
   (0::int) < 16 \<and> mmap_at \<lparr>mmap_at = Some 4096, mlock_grants = False\<rparr> = Some 4096 \<and>
   (Map.empty :: memory) 4096 = None \<and> \<not> mlock_grants \<lparr>mmap_at = Some 4096, mlock_grants = False\<rparr> \<and>
   (\<exists>h1 r. Mmap Map.empty \<lparr>mmap_at = Some 4096, mlock_grants = False\<rparr> 16 = Inr (4096, h1) \<and>
      h1 4096 = Some r \<and> Munmap h1 4096 (nat 16) = Inr Map.empty \<and>
      newLockedBuffer Map.empty \<lparr>mmap_at = Some 4096, mlock_grants = False\<rparr> 16 = (None, Map.empty)) \<and>
   mlock_grants \<lparr>mmap_at = Some 4096, mlock_grants = True\<rparr> \<and>
   newLockedBuffer Map.empty \<lparr>mmap_at = Some 4096, mlock_grants = True\<rparr> 16 =
     (Some \<lparr>addr = 4096, size' = 16, locked = True\<rparr>,
      [4096 \<mapsto> \<lparr>bytes = replicate (nat 16) 0, pinned = True\<rparr>])"
  using newLockedBuffer_failures [where n = 0 and h = Map.empty and a = 4096
          and k = "\<lparr>mmap_at = Some 4096, mlock_grants = True\<rparr>"]
    newLockedBuffer_failures [where n = 16 and h = Map.empty and a = 4096
          and k = "\<lparr>mmap_at = None, mlock_grants = True\<rparr>"]
    newLockedBuffer_failures [where n = 16 and h = Map.empty and a = 4096
          and k = "\<lparr>mmap_at = Some 4096, mlock_grants = False\<rparr>"]
    newLockedBuffer_failures [where n = 16 and h = Map.empty and a = 4096
          and k = "\<lparr>mmap_at = Some 4096, mlock_grants = True\<rparr>"]
  by simp




text \<open>
  Claim C10. When the source and the destination differ in size, \<open>copyTo\<close>
  returns at once and the memory, the destination's bytes included, is unchanged.
\<close>

theorem copyTo_mismatch_leaves_memory:
  assumes "size' b \<noteq> size' dest"
  shows "copyTo h b dest = Inr h"
  using assms by (simp add: copyTo_def)

text \<open>
  The same for a copy from a buffer of two bytes to one of three.
\<close>

theorem copyTo_mismatch_leaves_memory_witness:
  "size' \<lparr>addr = 4096, size' = 2, locked = True\<rparr> \<noteq> size' \<lparr>addr = 12288, size' = 3, locked = True\<rparr> \<and>
   copyTo two_buffers \<lparr>addr = 4096, size' = 2, locked = True\<rparr>
     \<lparr>addr = 12288, size' = 3, locked = True\<rparr> = Inr two_buffers \<and>
   two_buffers 12288 = Some \<lparr>bytes = [0, 0, 0], pinned = True\<rparr>"
proof -
  have h: "size' \<lparr>addr = 4096, size' = 2, locked = True\<rparr> \<noteq> size' \<lparr>addr = 12288, size' = 3, locked = True\<rparr>"
    by simp
  from copyTo_mismatch_leaves_memory [OF h, of two_buffers] h show ?thesis by simp
qed

end
